theory Spec2Isabelle
  imports Main "HOL-Library.Word" "HOL-Library.Monad_Syntax"
begin

unbundle bit_operations_syntax

section \<open>Data model of bitset.h\<close>

text \<open>
  A bitset is one contiguous array of 64-bit lanes (\<open>typedef uint64_t bitset_t\<close>); a
  pointer to a bitset is modelled by the list of the lanes of the allocation it points
  to. Lane 0 is the header \<open>setfields_t\<close>, lanes 1.. are the payload. \<open>size_t\<close> is taken
  to be 64 bits wide. Every access outside the allocation is undefined behaviour in C
  and is the value \<open>None\<close> here, as is \<open>abort()\<close>.
\<close>

type_synonym bitset_t = "64 word"
type_synonym size_t = "64 word"
type_synonym bitset = "bitset_t list"

definition load :: "bitset \<Rightarrow> nat \<Rightarrow> bitset_t option" where
  "load s i = (if i < length s then Some (s ! i) else None)"

definition store :: "bitset \<Rightarrow> nat \<Rightarrow> bitset_t \<Rightarrow> bitset option" where
  "store s i v = (if i < length s then Some (s[i := v]) else None)"

subsection \<open>The packed header \<open>setfields_t\<close>\<close>

text \<open>
  \<open>struct __packed { uint32_t size; uint16_t flags; uint16_t tag; }\<close> laid over lane 0,
  little-endian: \<open>size\<close> is bits 0..31, \<open>flags\<close> bits 32..47, \<open>tag\<close> bits 48..63.
\<close>

definition field_size :: "bitset_t \<Rightarrow> 32 word" where
  "field_size h = ucast h"

definition field_flags :: "bitset_t \<Rightarrow> 16 word" where
  "field_flags h = ucast (drop_bit 32 h)"

definition field_tag :: "bitset_t \<Rightarrow> 16 word" where
  "field_tag h = ucast (drop_bit 48 h)"

definition put_size :: "bitset_t \<Rightarrow> 32 word \<Rightarrow> bitset_t" where
  "put_size h v = (h AND NOT (mask 32)) OR ucast v"

definition put_tag :: "bitset_t \<Rightarrow> 16 word \<Rightarrow> bitset_t" where
  "put_tag h v = (h AND mask 48) OR push_bit 48 (ucast v)"

text \<open>\<open>BITSET_FIELD(set, size)\<close>, \<open>BITSET_FIELD(set, flags)\<close> and \<open>bitset_get_tag(set)\<close>.\<close>

definition bitset_get_size :: "bitset \<Rightarrow> 32 word option" where
  "bitset_get_size s = map_option field_size (load s 0)"

definition bitset_get_flags :: "bitset \<Rightarrow> 16 word option" where
  "bitset_get_flags s = map_option field_flags (load s 0)"

definition bitset_get_tag :: "bitset \<Rightarrow> 16 word option" where
  "bitset_get_tag s = map_option field_tag (load s 0)"

text \<open>\<open>bitset_set_size(set, val)\<close> stores \<open>(uint32_t)(val)\<close>, \<open>bitset_set_tag(set, val)\<close>
  stores \<open>(uint16_t)(val)\<close>.\<close>

definition bitset_set_size :: "bitset \<Rightarrow> size_t \<Rightarrow> bitset option" where
  "bitset_set_size s val = do { h \<leftarrow> load s 0; store s 0 (put_size h (ucast val)) }"

definition bitset_set_tag :: "bitset \<Rightarrow> size_t \<Rightarrow> bitset option" where
  "bitset_set_tag s val = do { h \<leftarrow> load s 0; store s 0 (put_tag h (ucast val)) }"

text \<open>\<open>BITSET_COPY_FIELD(dst, src, size)\<close>: assigns the field and has the assigned value.\<close>

definition BITSET_COPY_FIELD_size :: "bitset \<Rightarrow> bitset \<Rightarrow> (bitset \<times> 32 word) option" where
  "BITSET_COPY_FIELD_size dst src = do {
     n \<leftarrow> bitset_get_size src;
     h \<leftarrow> load dst 0;
     dst' \<leftarrow> store dst 0 (put_size h n);
     Some (dst', n) }"

definition ELEM_WORD :: "size_t \<Rightarrow> size_t" where
  "ELEM_WORD elem = 1 + drop_bit 6 elem"

definition ELEM_BIT :: "size_t \<Rightarrow> size_t" where
  "ELEM_BIT elem = elem AND 63"

definition REQ_SZ :: "size_t \<Rightarrow> size_t" where
  "REQ_SZ elems = 2 + drop_bit 6 (elems - 1)"

subsection \<open>Library routines and loops\<close>

text \<open>
  The allocator wrappers abort when the C library returns a null pointer; \<open>ok\<close> says
  whether it returned a block. \<open>calloc\<close> hands out zeroed lanes, \<open>malloc\<close> lanes of
  indeterminate content \<open>junk\<close>. Counts are in lanes (\<open>sizeof(bitset_t)\<close> bytes each).
\<close>

definition xcalloc :: "bool \<Rightarrow> nat \<Rightarrow> bitset option" where
  "xcalloc ok count = (if ok then Some (replicate count 0) else None)"

definition xmalloc :: "(nat \<Rightarrow> bitset_t) \<Rightarrow> bool \<Rightarrow> nat \<Rightarrow> bitset option" where
  "xmalloc junk ok count = (if ok then Some (map junk [0..<count]) else None)"

definition memcpy_lanes :: "bitset \<Rightarrow> bitset \<Rightarrow> nat \<Rightarrow> bitset option" where
  "memcpy_lanes dst src n =
     (if n \<le> length dst \<and> n \<le> length src then Some (take n src @ drop n dst) else None)"

definition memset_zero :: "bitset \<Rightarrow> nat \<Rightarrow> bitset option" where
  "memset_zero s n = (if n \<le> length s then Some (replicate n 0 @ drop n s) else None)"

text \<open>\<open>!memcmp(x, y, n * sizeof(bitset_t))\<close>\<close>

definition memcmp_eq :: "bitset \<Rightarrow> bitset \<Rightarrow> nat \<Rightarrow> bool option" where
  "memcmp_eq xs ys n =
     (if n \<le> length xs \<and> n \<le> length ys then Some (take n xs = take n ys) else None)"

text \<open>\<open>__builtin_popcountll\<close>: the number of one bits of a 64-bit value.\<close>

definition popcountll :: "bitset_t \<Rightarrow> nat" where
  "popcountll x = length (filter (bit x) [0..<64])"

text \<open>\<open>for (size_t i = n; i > 0; i--) body\<close>\<close>

fun for_down :: "nat \<Rightarrow> (nat \<Rightarrow> 's \<Rightarrow> 's option) \<Rightarrow> 's \<Rightarrow> 's option" where
  "for_down 0 body s = Some s"
| "for_down (Suc n) body s =
     (case body (Suc n) s of None \<Rightarrow> None | Some s' \<Rightarrow> for_down n body s')"

text \<open>The same loop around a body that may \<open>return false\<close>; falling out of it returns
  \<open>true\<close>.\<close>

fun all_down :: "nat \<Rightarrow> (nat \<Rightarrow> bool option) \<Rightarrow> bool option" where
  "all_down 0 viol = Some True"
| "all_down (Suc n) viol =
     (case viol (Suc n) of None \<Rightarrow> None
      | Some True \<Rightarrow> Some False
      | Some False \<Rightarrow> all_down n viol)"

section \<open>The operations of bitset.c\<close>

definition bitset_new :: "bool \<Rightarrow> size_t \<Rightarrow> bitset option" where
  "bitset_new ok elements = do {
     let w = REQ_SZ elements;
     s \<leftarrow> xcalloc ok (unat w);
     bitset_set_size s (w - 1) }"

definition bitset_get :: "bitset \<Rightarrow> size_t \<Rightarrow> bool option" where
  "bitset_get s index = do {
     let wordi = ELEM_WORD index;
     let biti = ELEM_BIT index;
     x \<leftarrow> load s (unat wordi);
     Some (x AND push_bit (unat biti) 1 \<noteq> 0) }"

definition bitset_set :: "bitset \<Rightarrow> size_t \<Rightarrow> bitset option" where
  "bitset_set s index = do {
     let wordi = ELEM_WORD index;
     let biti = ELEM_BIT index;
     x \<leftarrow> load s (unat wordi);
     store s (unat wordi) (x OR push_bit (unat biti) 1) }"

text \<open>In \<open>bitset_dupl\<close> the sum \<open>BITSET_FIELD(set, size) + 1\<close> is formed in \<open>uint32_t\<close>
  before it is widened to \<open>size_t\<close>; \<open>bitset_copy\<close> widens first.\<close>

definition bitset_dupl :: "(nat \<Rightarrow> bitset_t) \<Rightarrow> bool \<Rightarrow> bitset \<Rightarrow> bitset option" where
  "bitset_dupl junk ok s = do {
     n \<leftarrow> bitset_get_size s;
     let len = unat (n + 1);
     dupl \<leftarrow> xmalloc junk ok len;
     memcpy_lanes dupl s len }"

definition bitset_copy :: "bitset \<Rightarrow> bitset \<Rightarrow> bitset option" where
  "bitset_copy dst src = do {
     len \<leftarrow> bitset_get_size src;
     memcpy_lanes dst src (unat len + 1) }"

definition bitset_null :: "bitset \<Rightarrow> size_t \<Rightarrow> bitset option" where
  "bitset_null s elements = do {
     let w = REQ_SZ elements;
     s \<leftarrow> memset_zero s (unat w);
     bitset_set_size s (w - 1) }"

definition bitset_reset :: "bitset \<Rightarrow> bitset option" where
  "bitset_reset s = do {
     w \<leftarrow> bitset_get_size s;
     s \<leftarrow> memset_zero s (unat w + 1);
     bitset_set_size s (ucast w) }"

text \<open>\<open>for (size_t i = 1; i <= w; i++) set[i] = UINT64_MAX;\<close>\<close>

function universe_loop :: "nat \<Rightarrow> nat \<Rightarrow> bitset \<Rightarrow> bitset option" where
  "universe_loop i w s =
     (if i \<le> w
      then (case store s i (- 1) of None \<Rightarrow> None | Some s' \<Rightarrow> universe_loop (Suc i) w s')
      else Some s)"
  by pat_completeness auto
termination
  by (relation "measure (\<lambda>(i, w, s). Suc w - i)") auto

declare universe_loop.simps [simp del]

text \<open>A shift of a 64-bit value by 64 or more is undefined.\<close>

definition bitset_universe :: "bitset \<Rightarrow> size_t \<Rightarrow> bitset option" where
  "bitset_universe s elements = do {
     s \<leftarrow> store s 0 0;
     let w = REQ_SZ elements - 1;
     s \<leftarrow> universe_loop 1 (unat w) s;
     x \<leftarrow> load s (unat w);
     let sh = 64 * w - elements;
     s \<leftarrow> (if unat sh < 64 then store s (unat w) (drop_bit (unat sh) x) else None);
     bitset_set_size s w }"

definition bitset_equal :: "bitset \<Rightarrow> bitset \<Rightarrow> bool option" where
  "bitset_equal a b = do {
     len \<leftarrow> bitset_get_size a;
     memcmp_eq (drop 1 a) (drop 1 b) (unat len) }"

definition bitset_ord :: "bitset \<Rightarrow> size_t option" where
  "bitset_ord s = do {
     n \<leftarrow> bitset_get_size s;
     for_down (unat n)
       (\<lambda>i sum. do { x \<leftarrow> load s i; Some (sum + of_nat (popcountll x)) }) 0 }"

definition bitset_tag_ord :: "bitset \<Rightarrow> bitset option" where
  "bitset_tag_ord s = do {
     n \<leftarrow> bitset_get_size s;
     sum \<leftarrow> for_down (unat n)
       (\<lambda>i sum. do { x \<leftarrow> load s i; Some (sum + of_nat (popcountll x)) }) 0;
     bitset_set_tag s sum }"

definition bitset_and_inplace :: "bitset \<Rightarrow> bitset \<Rightarrow> bitset option" where
  "bitset_and_inplace a b = do {
     n \<leftarrow> bitset_get_size a;
     for_down (unat n)
       (\<lambda>i a. do { x \<leftarrow> load a i; y \<leftarrow> load b i; store a i (x AND y) }) a }"

definition bitset_or_inplace :: "bitset \<Rightarrow> bitset \<Rightarrow> bitset option" where
  "bitset_or_inplace a b = do {
     n \<leftarrow> bitset_get_size a;
     for_down (unat n)
       (\<lambda>i a. do { x \<leftarrow> load a i; y \<leftarrow> load b i; store a i (x OR y) }) a }"

definition bitset_xand :: "bitset \<Rightarrow> bitset \<Rightarrow> bitset \<Rightarrow> bitset option" where
  "bitset_xand r a b = do {
     n \<leftarrow> bitset_get_size a;
     for_down (unat n)
       (\<lambda>i r. do { z \<leftarrow> load r i; x \<leftarrow> load a i; y \<leftarrow> load b i; store r i (z AND (x XOR y)) })
       r }"

definition bitset_diff_inplace :: "bitset \<Rightarrow> bitset \<Rightarrow> bitset option" where
  "bitset_diff_inplace a b = do {
     n \<leftarrow> bitset_get_size a;
     for_down (unat n)
       (\<lambda>i a. do { x \<leftarrow> load a i; y \<leftarrow> load b i; store a i (x AND NOT y) }) a }"

definition bitset_mask_inplace :: "bitset \<Rightarrow> bitset \<Rightarrow> bitset option" where
  "bitset_mask_inplace a b = do {
     n \<leftarrow> bitset_get_size a;
     for_down (unat n)
       (\<lambda>i a. do { x \<leftarrow> load a i; y \<leftarrow> load b i; store a i (x AND NOT (x AND NOT y)) }) a }"

definition bitset_merge :: "bitset \<Rightarrow> bitset \<Rightarrow> bitset \<Rightarrow> bitset \<Rightarrow> bitset option" where
  "bitset_merge r a b c = do {
     (r, n) \<leftarrow> BITSET_COPY_FIELD_size r a;
     for_down (unat n)
       (\<lambda>i r. do { x \<leftarrow> load a i; y \<leftarrow> load b i; z \<leftarrow> load c i;
                    store r i (y XOR ((y XOR x) AND z)) })
       r }"

definition bitset_implies :: "bitset \<Rightarrow> bitset \<Rightarrow> bool option" where
  "bitset_implies a b = do {
     n \<leftarrow> bitset_get_size a;
     all_down (unat n)
       (\<lambda>i. do { x \<leftarrow> load a i; y \<leftarrow> load b i; Some (x AND NOT y \<noteq> 0) }) }"

section \<open>Well-formed operands\<close>

text \<open>
  A bitset of declared size \<open>n\<close>: the header's \<open>size\<close> field reads \<open>n\<close> and the
  allocation holds the header lane and the \<open>n\<close> payload lanes. Two operands of equal
  declared size are two bitsets valid for the same \<open>n\<close>.
\<close>

definition valid_bitset :: "bitset \<Rightarrow> 32 word \<Rightarrow> bool" where
  "valid_bitset s n = (bitset_get_size s = Some n \<and> unat n < length s)"

section \<open>Header fields\<close>

lemma field_size_put_size: "field_size (put_size h v) = v"
  unfolding field_size_def put_size_def
  by (rule bit_word_eqI) (auto simp: bit_simps)

lemma field_flags_put_size: "field_flags (put_size h v) = field_flags h"
  unfolding field_flags_def put_size_def
  by (rule bit_word_eqI) (auto simp: bit_simps dest: bit_imp_le_length)

lemma field_tag_put_size: "field_tag (put_size h v) = field_tag h"
  unfolding field_tag_def put_size_def
  by (rule bit_word_eqI) (auto simp: bit_simps dest: bit_imp_le_length)

lemma field_tag_put_tag: "field_tag (put_tag h v) = v"
  unfolding field_tag_def put_tag_def
  by (rule bit_word_eqI) (auto simp: bit_simps)

lemma field_size_put_tag: "field_size (put_tag h v) = field_size h"
  unfolding field_size_def put_tag_def
  by (rule bit_word_eqI) (auto simp: bit_simps)

lemma field_flags_put_tag: "field_flags (put_tag h v) = field_flags h"
  unfolding field_flags_def put_tag_def
  by (rule bit_word_eqI) (auto simp: bit_simps)

lemma field_zero: "field_flags 0 = 0" "field_tag 0 = 0" "field_size 0 = 0"
  by (simp_all add: field_flags_def field_tag_def field_size_def)

section \<open>Loads, stores and the lane loop\<close>

lemma load_Some: "i < length s \<Longrightarrow> load s i = Some (s ! i)"
  by (simp add: load_def)

lemma store_Some: "i < length s \<Longrightarrow> store s i v = Some (s[i := v])"
  by (simp add: store_def)

lemma valid_bitsetD:
  assumes "valid_bitset s n"
  shows "bitset_get_size s = Some n" and "unat n < length s" and "0 < length s"
    and "field_size (s ! 0) = n"
  using assms by (auto simp: valid_bitset_def bitset_get_size_def load_def split: if_splits)

text \<open>
  A descending loop whose body replaces lane \<open>i\<close> by a function of its index and old
  content rewrites exactly the lanes \<open>1..n\<close> and keeps the length.
\<close>

lemma for_down_lanes:
  assumes "\<And>i t. 0 < i \<Longrightarrow> i \<le> n \<Longrightarrow> length t = length s \<Longrightarrow>
             body i t = Some (t[i := F i (t ! i)])"
    and "n < length s"
  shows "\<exists>s'. for_down n body s = Some s' \<and> length s' = length s \<and>
           (\<forall>j. s' ! j = (if 0 < j \<and> j \<le> n then F j (s ! j) else s ! j))"
  using assms
proof (induction n arbitrary: s)
  case 0
  then show ?case by simp
next
  case (Suc n)
  let ?s1 = "s[Suc n := F (Suc n) (s ! Suc n)]"
  have step: "body (Suc n) s = Some ?s1"
    using Suc.prems(1) [of "Suc n" s] by simp
  have "\<exists>s'. for_down n body ?s1 = Some s' \<and> length s' = length ?s1 \<and>
           (\<forall>j. s' ! j = (if 0 < j \<and> j \<le> n then F j (?s1 ! j) else ?s1 ! j))"
  proof (rule Suc.IH)
    show "n < length ?s1" using Suc.prems(2) by simp
  next
    fix i and t :: "'a list" assume "0 < i" "i \<le> n" "length t = length ?s1"
    then show "body i t = Some (t[i := F i (t ! i)])"
      using Suc.prems(1) [of i t] by simp
  qed
  then obtain s' where s': "for_down n body ?s1 = Some s'" "length s' = length s"
    "\<And>j. s' ! j = (if 0 < j \<and> j \<le> n then F j (?s1 ! j) else ?s1 ! j)"
    by auto
  have "s' ! j = (if 0 < j \<and> j \<le> Suc n then F j (s ! j) else s ! j)" for j
  proof (cases "j = Suc n")
    case True
    then show ?thesis using s'(3) [of j] Suc.prems(2) by simp
  next
    case False
    then show ?thesis using s'(3) [of j] by (simp add: nth_list_update)
  qed
  with s'(1,2) step show ?case by simp
qed

section \<open>Merge\<close>

lemma merge_lane_bit:
  "bit (y XOR ((y XOR x) AND z)) p = (if bit z p then bit x p else bit y p)"
  for x y z :: bitset_t
  by (auto simp: bit_simps)

lemma merge_lane_two_step:
  "y XOR ((y XOR x) AND z) = (x AND z) OR (y AND NOT z)"
  for x y z :: bitset_t
  by (rule bit_word_eqI) (auto simp: bit_simps)

text \<open>
  C1. For operands of equal declared size and a result operand with room for the
  payload, \<open>bitset_merge\<close> returns, and in every payload lane \<open>1..size\<close> and at every
  bit position the result has the bit of \<open>a\<close> where the bit of \<open>c\<close> is 1 and the bit
  of \<open>b\<close> where it is 0; the lane the code computes, \<open>b ^ ((b ^ a) & c)\<close>, is the lane
  of the two-step form \<open>(a & c) | (b & ~c)\<close>.
\<close>

theorem bitset_merge_select:
  assumes a: "valid_bitset a n" and b: "valid_bitset b n" and c: "valid_bitset c n"
    and r: "unat n < length r"
  shows "\<exists>r'. bitset_merge r a b c = Some r' \<and> length r' = length r \<and>
           bitset_get_size r' = Some n \<and>
           (\<forall>i p. 0 < i \<and> i \<le> unat n \<longrightarrow>
              bit (r' ! i) p = (if bit (c ! i) p then bit (a ! i) p else bit (b ! i) p)) \<and>
           (\<forall>i. 0 < i \<and> i \<le> unat n \<longrightarrow>
              r' ! i = (a ! i AND c ! i) OR (b ! i AND NOT (c ! i)))"
proof -
  let ?r1 = "r[0 := put_size (r ! 0) n]"
  let ?body = "\<lambda>i r. do { x \<leftarrow> load a i; y \<leftarrow> load b i; z \<leftarrow> load c i;
                    store r i (y XOR ((y XOR x) AND z)) }"
  let ?F = "\<lambda>i (v :: bitset_t). b ! i XOR ((b ! i XOR a ! i) AND c ! i)"
  have pos: "0 < length r"
    using r by (cases r) simp_all
  have copy: "BITSET_COPY_FIELD_size r a = Some (?r1, n)"
    using valid_bitsetD(1) [OF a] pos
    by (simp add: BITSET_COPY_FIELD_size_def load_Some store_Some)
  have "\<exists>s'. for_down (unat n) ?body ?r1 = Some s' \<and> length s' = length ?r1 \<and>
           (\<forall>j. s' ! j = (if 0 < j \<and> j \<le> unat n then ?F j (?r1 ! j) else ?r1 ! j))"
  proof (rule for_down_lanes)
    show "unat n < length ?r1" using r by simp
  next
    fix i and t :: bitset
    assume "0 < i" "i \<le> unat n" "length t = length ?r1"
    then show "?body i t = Some (t[i := ?F i (t ! i)])"
      using valid_bitsetD(2) [OF a] valid_bitsetD(2) [OF b] valid_bitsetD(2) [OF c] r
      by (simp add: load_Some store_Some)
  qed
  then obtain r' where r': "for_down (unat n) ?body ?r1 = Some r'" "length r' = length r"
    "\<And>j. r' ! j = (if 0 < j \<and> j \<le> unat n then ?F j (?r1 ! j) else ?r1 ! j)"
    by auto
  have m: "bitset_merge r a b c = Some r'"
    by (simp add: bitset_merge_def copy r'(1))
  have hd: "bitset_get_size r' = Some n"
    using r'(2) r'(3) [of 0] pos
    by (simp add: bitset_get_size_def load_Some field_size_put_size)
  have lanes: "r' ! i = b ! i XOR ((b ! i XOR a ! i) AND c ! i)" if "0 < i" "i \<le> unat n" for i
    using r'(3) [of i] that by simp
  have bits: "\<forall>i p. 0 < i \<and> i \<le> unat n \<longrightarrow>
      bit (r' ! i) p = (if bit (c ! i) p then bit (a ! i) p else bit (b ! i) p)"
    using lanes by (simp add: merge_lane_bit)
  have two: "\<forall>i. 0 < i \<and> i \<le> unat n \<longrightarrow>
      r' ! i = (a ! i AND c ! i) OR (b ! i AND NOT (c ! i))"
    using lanes by (simp add: merge_lane_two_step)
  from m r'(2) hd bits two show ?thesis
    by blast
qed

theorem bitset_merge_select_witness:
  "valid_bitset [1, 12] 1 \<and> valid_bitset [1, 10] 1 \<and> valid_bitset [1, 6] 1 \<and>
   unat (1 :: 32 word) < length [0, 0 :: bitset_t] \<and>
   (\<exists>r'. bitset_merge [0, 0] [1, 12] [1, 10] [1, 6] = Some r' \<and> r' ! 1 = 12)"
proof -
  have a: "valid_bitset [1, 12] 1" and b: "valid_bitset [1, 10] 1" and c: "valid_bitset [1, 6] 1"
    by (simp_all add: valid_bitset_def bitset_get_size_def load_def field_size_def)
  have r: "unat (1 :: 32 word) < length [0, 0 :: bitset_t]" by simp
  from bitset_merge_select [OF a b c r]
  obtain r' where m: "bitset_merge [0, 0] [1, 12] [1, 10] [1, 6] = Some r'"
    and l: "\<forall>i. 0 < i \<and> i \<le> unat (1 :: 32 word) \<longrightarrow>
              r' ! i = ([1, 12] ! i AND [1, 6] ! i) OR ([1, 10] ! i AND NOT ([1, 6 :: bitset_t] ! i))"
    by blast
  from l have "r' ! 1 = (12 AND 6) OR (10 AND NOT 6)" by simp
  then have "r' ! 1 = 12" by simp
  with a b c r m show ?thesis by blast
qed

text \<open>
  The scenario of C2 as the claim has it fails: where \<open>c\<close> is 0 the merge selects the
  bits of \<open>b\<close>, and \<open>b\<close> has bits 64..127 set, so bit 64 of the result is set and the
  result differs from \<open>a\<close>.
\<close>

theorem bitset_merge_scenario_counterexample:
  "bitset_merge [2, 0, 0] [2, - 1, 0] [2, 0, - 1] [2, - 1, 0] = Some [2, - 1, - 1]
   \<and> bitset_equal [2, - 1, - 1] [2, - 1, 0] = Some False
   \<and> bitset_get [2, - 1, - 1] 64 = Some True"
  by code_simp

text \<open>
  C2 (amended). For bitsets of capacity 128 bits (two payload lanes) where \<open>a\<close> has
  exactly bits 0..63 set, \<open>b\<close> exactly bits 64..127 and \<open>c\<close> exactly bits 0..63,
  \<open>bitset_merge\<close> into any three-lane result operand produces bits 0..63 set (from
  \<open>a\<close>) and bits 64..127 set (from \<open>b\<close>): all 128 bits, with the size field 2 copied
  from \<open>a\<close>.
\<close>

theorem bitset_merge_scenario:
  "bitset_merge [r0, r1, r2] [2, - 1, 0] [2, 0, - 1] [2, - 1, 0]
     = Some [put_size r0 2, - 1, - 1]"
proof -
  let ?body = "\<lambda>i r. do { x \<leftarrow> load [2, - 1, 0] i; y \<leftarrow> load [2, 0, - 1] i;
                    z \<leftarrow> load [2, - 1, 0] i; store r i (y XOR ((y XOR x) AND z)) }"
  have sz: "bitset_get_size [2, - 1, 0] = Some 2"
    by (simp add: bitset_get_size_def load_def field_size_def)
  have copy: "BITSET_COPY_FIELD_size [r0, r1, r2] [2, - 1, 0] = Some ([put_size r0 2, r1, r2], 2)"
    by (simp add: BITSET_COPY_FIELD_size_def sz load_def store_def)
  have n2: "unat (2 :: 32 word) = Suc (Suc 0)"
    by simp
  have loop: "for_down (Suc (Suc 0)) ?body [put_size r0 2, r1, r2] = Some [put_size r0 2, - 1, - 1]"
    by (simp add: load_def store_def)
  show ?thesis
    by (simp only: bitset_merge_def copy bind.bind_lunit prod.case n2 loop)
qed

section \<open>In-place operations\<close>

text \<open>
  The two-operand in-place loop \<open>a[i] = f(a[i], b[i])\<close> for \<open>i = n .. 1\<close>.
\<close>

lemma inplace_lanes:
  assumes a: "n < length a" and b: "n < length b"
  shows "\<exists>a'. for_down n (\<lambda>i a. do { x \<leftarrow> load a i; y \<leftarrow> load b i; store a i (f x y) }) a
              = Some a' \<and> length a' = length a \<and>
           (\<forall>j. a' ! j = (if 0 < j \<and> j \<le> n then f (a ! j) (b ! j) else a ! j))"
proof (rule for_down_lanes [where F = "\<lambda>i v. f v (b ! i)"])
  show "n < length a" by (rule a)
next
  fix i and t :: bitset
  assume "0 < i" "i \<le> n" "length t = length a"
  then show "do { x \<leftarrow> load t i; y \<leftarrow> load b i; store t i (f x y) }
      = Some (t[i := f (t ! i) (b ! i)])"
    using a b by (simp add: load_Some store_Some)
qed

lemma mask_lane: "x AND NOT (x AND NOT y) = x AND y" for x y :: bitset_t
  by (rule bit_word_eqI) (auto simp: bit_simps)

text \<open>
  C6. For all bitsets \<open>a\<close> and \<open>b\<close> of equal declared size,
  \<open>bitset_mask_inplace(a, b)\<close>, computing \<open>a[i] &= ~(a[i] & ~b[i])\<close> per lane,
  returns and leaves \<open>a\<close> bit-identical to what \<open>bitset_and_inplace(a, b)\<close>
  produces: every payload lane keeps exactly the bits of \<open>a\<close> also set in \<open>b\<close>, the
  header is untouched. With \<open>a = {0,1,2}\<close> and \<open>b = {1,2}\<close>, \<open>a\<close> becomes \<open>{1,2}\<close>.
\<close>

theorem bitset_mask_inplace_is_and:
  assumes a: "valid_bitset a n" and b: "valid_bitset b n"
  shows "\<exists>a'. bitset_mask_inplace a b = Some a' \<and> bitset_and_inplace a b = Some a' \<and>
           length a' = length a \<and> a' ! 0 = a ! 0 \<and>
           (\<forall>i. 0 < i \<and> i \<le> unat n \<longrightarrow> a' ! i = a ! i AND b ! i) \<and>
           bitset_mask_inplace [1, 7] [1, 6] = Some [1, 6]"
proof -
  have same: "bitset_mask_inplace a b = bitset_and_inplace a b"
    by (simp only: bitset_mask_inplace_def bitset_and_inplace_def mask_lane)
  from inplace_lanes [OF valid_bitsetD(2) [OF a] valid_bitsetD(2) [OF b], of "(AND)"]
  obtain a' where a': "for_down (unat n)
        (\<lambda>i a. do { x \<leftarrow> load a i; y \<leftarrow> load b i; store a i (x AND y) }) a = Some a'"
      "length a' = length a"
      "\<And>j. a' ! j = (if 0 < j \<and> j \<le> unat n then a ! j AND b ! j else a ! j)"
    by blast
  have r: "bitset_and_inplace a b = Some a'"
    by (simp add: bitset_and_inplace_def valid_bitsetD(1) [OF a] a'(1))
  have scen: "bitset_mask_inplace [1, 7] [1, 6] = Some [1, 6]"
    by code_simp
  have "a' ! 0 = a ! 0" using a'(3) [of 0] by simp
  moreover have "\<forall>i. 0 < i \<and> i \<le> unat n \<longrightarrow> a' ! i = a ! i AND b ! i"
    using a'(3) by simp
  ultimately show ?thesis
    using same r a'(2) scen by simp
qed

theorem bitset_mask_inplace_is_and_witness:
  "valid_bitset [1, 7] 1 \<and> valid_bitset [1, 6] 1 \<and>
   (\<exists>a'. bitset_mask_inplace [1, 7] [1, 6] = Some a' \<and>
      bitset_and_inplace [1, 7] [1, 6] = Some a' \<and> a' = [1, 6])"
proof -
  have a: "valid_bitset [1, 7] 1" and b: "valid_bitset [1, 6] 1"
    by (simp_all add: valid_bitset_def bitset_get_size_def load_def field_size_def)
  from bitset_mask_inplace_is_and [OF a b]
  obtain a' where "bitset_mask_inplace [1, 7] [1, 6] = Some a'"
    "bitset_and_inplace [1, 7] [1, 6] = Some a'" "bitset_mask_inplace [1, 7] [1, 6] = Some [1, 6]"
    by blast
  with a b show ?thesis by simp
qed

section \<open>Relational predicates\<close>

text \<open>
  A loop that returns \<open>false\<close> at the first violating lane returns \<open>true\<close> exactly
  when no lane of \<open>1..n\<close> violates.
\<close>

lemma all_down_lanes:
  assumes "\<And>i. 0 < i \<Longrightarrow> i \<le> n \<Longrightarrow> viol i = Some (P i)"
  shows "all_down n viol = Some (\<forall>i. 0 < i \<and> i \<le> n \<longrightarrow> \<not> P i)"
  using assms
proof (induction n)
  case 0
  then show ?case by simp
next
  case (Suc n)
  have v: "viol (Suc n) = Some (P (Suc n))"
    using Suc.prems [of "Suc n"] by simp
  have ih: "all_down n viol = Some (\<forall>i. 0 < i \<and> i \<le> n \<longrightarrow> \<not> P i)"
    using Suc.IH Suc.prems by simp
  show ?case
  proof (cases "P (Suc n)")
    case True
    then show ?thesis using v by auto
  next
    case False
    have "(\<forall>i. 0 < i \<and> i \<le> Suc n \<longrightarrow> \<not> P i) = (\<forall>i. 0 < i \<and> i \<le> n \<longrightarrow> \<not> P i)"
      using False by (auto simp: le_Suc_eq)
    then show ?thesis using v ih False by simp
  qed
qed

lemma bitset_implies_lanes:
  assumes a: "valid_bitset a n" and b: "valid_bitset b n"
  shows "bitset_implies a b = Some (\<forall>i. 0 < i \<and> i \<le> unat n \<longrightarrow> a ! i AND NOT (b ! i) = 0)"
proof -
  have "all_down (unat n) (\<lambda>i. do { x \<leftarrow> load a i; y \<leftarrow> load b i; Some (x AND NOT y \<noteq> 0) })
      = Some (\<forall>i. 0 < i \<and> i \<le> unat n \<longrightarrow> \<not> (a ! i AND NOT (b ! i) \<noteq> 0))"
    using valid_bitsetD(2) [OF a] valid_bitsetD(2) [OF b]
    by (intro all_down_lanes) (simp add: load_Some)
  then show ?thesis
    by (simp add: bitset_implies_def valid_bitsetD(1) [OF a])
qed

lemma payload_eq_iff:
  assumes a: "n < length a" and b: "n < length b"
  shows "(take n (drop 1 a) = take n (drop 1 b)) = (\<forall>i. 0 < i \<and> i \<le> n \<longrightarrow> a ! i = b ! i)"
proof
  assume eq: "take n (drop 1 a) = take n (drop 1 b)"
  show "\<forall>i. 0 < i \<and> i \<le> n \<longrightarrow> a ! i = b ! i"
  proof (intro allI impI)
    fix i assume i: "0 < i \<and> i \<le> n"
    then have k: "i - 1 < n" and s: "1 + (i - 1) = i"
      by arith+
    have "take n (drop 1 a) ! (i - 1) = take n (drop 1 b) ! (i - 1)"
      using eq by simp
    then have "a ! (1 + (i - 1)) = b ! (1 + (i - 1))"
      using k a b by (simp only: nth_take) simp
    then show "a ! i = b ! i"
      by (simp only: s)
  qed
next
  assume lanes: "\<forall>i. 0 < i \<and> i \<le> n \<longrightarrow> a ! i = b ! i"
  show "take n (drop 1 a) = take n (drop 1 b)"
  proof (rule nth_equalityI)
    show "length (take n (drop 1 a)) = length (take n (drop 1 b))"
      using a b by simp
  next
    fix k assume "k < length (take n (drop 1 a))"
    then have k: "k < n" by simp
    then show "take n (drop 1 a) ! k = take n (drop 1 b) ! k"
      using lanes a b by simp
  qed
qed

lemma lane_subset_antisym:
  "(x AND NOT y = 0 \<and> y AND NOT x = 0) = (x = y)" for x y :: bitset_t
proof
  assume h: "x AND NOT y = 0 \<and> y AND NOT x = 0"
  show "x = y"
  proof (rule bit_word_eqI)
    fix k assume "k < LENGTH(64)"
    from h have "\<not> bit (x AND NOT y) k" "\<not> bit (y AND NOT x) k" by simp_all
    then show "bit x k = bit y k"
      using \<open>k < LENGTH(64)\<close> by (auto simp: bit_simps)
  qed
next
  assume "x = y"
  then show "x AND NOT y = 0 \<and> y AND NOT x = 0" by simp
qed

text \<open>
  C7. For all bitsets \<open>a\<close> and \<open>b\<close> of equal declared size, the three predicates
  return, and \<open>bitset_implies(a, b)\<close> and \<open>bitset_implies(b, a)\<close> are both true if
  and only if \<open>bitset_equal(a, b)\<close> is true.
\<close>

theorem bitset_implies_antisym:
  assumes a: "valid_bitset a n" and b: "valid_bitset b n"
  shows "\<exists>p q e. bitset_implies a b = Some p \<and> bitset_implies b a = Some q \<and>
           bitset_equal a b = Some e \<and> (p \<and> q) = e"
proof -
  let ?p = "\<forall>i. 0 < i \<and> i \<le> unat n \<longrightarrow> a ! i AND NOT (b ! i) = 0"
  let ?q = "\<forall>i. 0 < i \<and> i \<le> unat n \<longrightarrow> b ! i AND NOT (a ! i) = 0"
  let ?e = "take (unat n) (drop 1 a) = take (unat n) (drop 1 b)"
  have la: "unat n < length a" and lb: "unat n < length b"
    using valid_bitsetD(2) [OF a] valid_bitsetD(2) [OF b] by simp_all
  have "unat n \<le> length a - 1" and "unat n \<le> length b - 1"
    using la lb by simp_all
  then have e: "bitset_equal a b = Some ?e"
    by (simp add: bitset_equal_def valid_bitsetD(1) [OF a] memcmp_eq_def)
  have "(?p \<and> ?q) = (\<forall>i. 0 < i \<and> i \<le> unat n \<longrightarrow> a ! i = b ! i)"
    using lane_subset_antisym by blast
  then have "(?p \<and> ?q) = ?e"
    using payload_eq_iff [OF la lb] by simp
  with bitset_implies_lanes [OF a b] bitset_implies_lanes [OF b a] e show ?thesis
    by blast
qed

theorem bitset_implies_antisym_witness:
  "valid_bitset [1, 6] 1 \<and> valid_bitset [1, 7] 1 \<and>
   bitset_implies [1, 6] [1, 7] = Some True \<and> bitset_implies [1, 7] [1, 6] = Some False \<and>
   bitset_equal [1, 6] [1, 7] = Some False \<and>
   (\<exists>p q e. bitset_implies [1, 6] [1, 7] = Some p \<and> bitset_implies [1, 7] [1, 6] = Some q \<and>
           bitset_equal [1, 6] [1, 7] = Some e \<and> (p \<and> q) = e)"
proof -
  have a: "valid_bitset [1, 6] 1" and b: "valid_bitset [1, 7] 1"
    by (simp_all add: valid_bitset_def bitset_get_size_def load_def field_size_def)
  have c: "bitset_implies [1, 6] [1, 7] = Some True" "bitset_implies [1, 7] [1, 6] = Some False"
    "bitset_equal [1, 6] [1, 7] = Some False"
    by code_simp+
  from a b c bitset_implies_antisym [OF a b] show ?thesis by blast
qed

section \<open>Iteration bounds of the in-place operations\<close>

text \<open>
  \<open>bitset_xand\<close> reads its bound from operand \<open>a\<close> and rewrites lanes \<open>1..size(a)\<close>
  of \<open>r\<close>.
\<close>

lemma bitset_xand_lanes:
  assumes a: "valid_bitset a n" and b: "unat n < length b" and r: "unat n < length r"
  shows "\<exists>r'. bitset_xand r a b = Some r' \<and> length r' = length r \<and>
           (\<forall>j. r' ! j = (if 0 < j \<and> j \<le> unat n then r ! j AND (a ! j XOR b ! j) else r ! j))"
proof -
  let ?body = "\<lambda>i r. do { z \<leftarrow> load r i; x \<leftarrow> load a i; y \<leftarrow> load b i;
                        store r i (z AND (x XOR y)) }"
  have "\<exists>r'. for_down (unat n) ?body r = Some r' \<and> length r' = length r \<and>
           (\<forall>j. r' ! j = (if 0 < j \<and> j \<le> unat n then r ! j AND (a ! j XOR b ! j) else r ! j))"
  proof (rule for_down_lanes [where F = "\<lambda>i v. v AND (a ! i XOR b ! i)"])
    show "unat n < length r" by (rule r)
  next
    fix i and t :: bitset
    assume "0 < i" "i \<le> unat n" "length t = length r"
    then show "?body i t = Some (t[i := t ! i AND (a ! i XOR b ! i)])"
      using valid_bitsetD(2) [OF a] b r by (simp add: load_Some store_Some)
  qed
  then show ?thesis
    by (simp add: bitset_xand_def valid_bitsetD(1) [OF a])
qed

text \<open>
  C8 as the claim has it fails for \<open>bitset_xand\<close>: with \<open>r\<close> of declared size 1
  (in storage of three lanes, as \<open>bitset_null\<close> leaves it) and \<open>a\<close>, \<open>b\<close> of
  declared size 2, the loop runs twice and rewrites lane 2 of \<open>r\<close>, outside
  \<open>1..size(r)\<close>.
\<close>

theorem bitset_xand_bound_counterexample:
  "bitset_get_size [1, 15, 15] = Some 1 \<and>
   bitset_xand [1, 15, 15] [2, 0, 0] [2, 0, 0] = Some [1, 0, 0] \<and>
   [1, 0, 0] ! 2 \<noteq> [1, 15, 15 :: bitset_t] ! 2"
  by code_simp

text \<open>
  C8 (amended). \<open>bitset_or_inplace\<close>, \<open>bitset_and_inplace\<close>, \<open>bitset_diff_inplace\<close>
  and \<open>bitset_mask_inplace\<close> take the iteration bound from the size field of the
  operand \<open>a\<close> they mutate, rewrite lanes \<open>1..size(a)\<close> by their formula and leave
  every other lane of \<open>a\<close> (the header included) as it was. \<open>bitset_xand\<close> takes its
  bound from the size field of its read-only operand \<open>a\<close>, not from the mutated
  operand \<open>r\<close>: it rewrites exactly lanes \<open>1..size(a)\<close> of \<open>r\<close> and leaves every
  other lane of \<open>r\<close> as it was, whatever the size field of \<open>r\<close> reads.
\<close>

theorem inplace_iteration_bound:
  assumes a: "valid_bitset a n" and b: "unat n < length b" and r: "unat n < length r"
  shows "(\<exists>a'. bitset_or_inplace a b = Some a' \<and> length a' = length a \<and>
            (\<forall>j. a' ! j = (if 0 < j \<and> j \<le> unat n then a ! j OR b ! j else a ! j))) \<and>
         (\<exists>a'. bitset_and_inplace a b = Some a' \<and> length a' = length a \<and>
            (\<forall>j. a' ! j = (if 0 < j \<and> j \<le> unat n then a ! j AND b ! j else a ! j))) \<and>
         (\<exists>a'. bitset_diff_inplace a b = Some a' \<and> length a' = length a \<and>
            (\<forall>j. a' ! j = (if 0 < j \<and> j \<le> unat n then a ! j AND NOT (b ! j) else a ! j))) \<and>
         (\<exists>a'. bitset_mask_inplace a b = Some a' \<and> length a' = length a \<and>
            (\<forall>j. a' ! j = (if 0 < j \<and> j \<le> unat n
                            then a ! j AND NOT (a ! j AND NOT (b ! j)) else a ! j))) \<and>
         (\<exists>r'. bitset_xand r a b = Some r' \<and> length r' = length r \<and>
            (\<forall>j. r' ! j = (if 0 < j \<and> j \<le> unat n
                            then r ! j AND (a ! j XOR b ! j) else r ! j)))"
proof -
  note la = valid_bitsetD(2) [OF a]
  note sz = valid_bitsetD(1) [OF a]
  have 1: "\<exists>a'. bitset_or_inplace a b = Some a' \<and> length a' = length a \<and>
            (\<forall>j. a' ! j = (if 0 < j \<and> j \<le> unat n then a ! j OR b ! j else a ! j))"
    using inplace_lanes [OF la b, of "(OR)"] by (simp add: bitset_or_inplace_def sz)
  have 2: "\<exists>a'. bitset_and_inplace a b = Some a' \<and> length a' = length a \<and>
            (\<forall>j. a' ! j = (if 0 < j \<and> j \<le> unat n then a ! j AND b ! j else a ! j))"
    using inplace_lanes [OF la b, of "(AND)"] by (simp add: bitset_and_inplace_def sz)
  have 3: "\<exists>a'. bitset_diff_inplace a b = Some a' \<and> length a' = length a \<and>
            (\<forall>j. a' ! j = (if 0 < j \<and> j \<le> unat n then a ! j AND NOT (b ! j) else a ! j))"
    using inplace_lanes [OF la b, of "\<lambda>x y. x AND NOT y"]
    by (simp add: bitset_diff_inplace_def sz)
  have 4: "\<exists>a'. bitset_mask_inplace a b = Some a' \<and> length a' = length a \<and>
            (\<forall>j. a' ! j = (if 0 < j \<and> j \<le> unat n
                            then a ! j AND NOT (a ! j AND NOT (b ! j)) else a ! j))"
    using inplace_lanes [OF la b, of "\<lambda>x y. x AND NOT (x AND NOT y)"]
    by (simp only: bitset_mask_inplace_def sz bind.bind_lunit)
  from 1 2 3 4 bitset_xand_lanes [OF a b r] show ?thesis
    by (intro conjI)
qed

theorem inplace_iteration_bound_witness:
  "valid_bitset [2, 5, 6] 2 \<and> unat (2 :: 32 word) < length [2, 3, 3 :: bitset_t] \<and>
   unat (2 :: 32 word) < length [1, 15, 15 :: bitset_t] \<and>
   bitset_get_size [1, 15, 15] = Some 1 \<and>
   (\<exists>r'. bitset_xand [1, 15, 15] [2, 5, 6] [2, 3, 3] = Some r' \<and> r' ! 2 = 5) \<and>
   (\<exists>a'. bitset_or_inplace [2, 5, 6] [2, 3, 3] = Some a' \<and> a' ! 2 = 7)"
proof -
  have a: "valid_bitset [2, 5, 6] 2"
    by (simp add: valid_bitset_def bitset_get_size_def load_def field_size_def)
  have b: "unat (2 :: 32 word) < length [2, 3, 3 :: bitset_t]"
    and r: "unat (2 :: 32 word) < length [1, 15, 15 :: bitset_t]"
    by simp_all
  have s: "bitset_get_size [1, 15, 15] = Some 1"
    by (simp add: bitset_get_size_def load_def field_size_def)
  note t = inplace_iteration_bound [OF a b r]
  from t obtain r' where x: "bitset_xand [1, 15, 15] [2, 5, 6] [2, 3, 3] = Some r'"
    "\<forall>j. r' ! j = (if 0 < j \<and> j \<le> unat (2 :: 32 word)
         then [1, 15, 15] ! j AND ([2, 5, 6] ! j XOR [2, 3, 3 :: bitset_t] ! j) else [1, 15, 15] ! j)"
    by blast
  from t obtain a' where o: "bitset_or_inplace [2, 5, 6] [2, 3, 3] = Some a'"
    "\<forall>j. a' ! j = (if 0 < j \<and> j \<le> unat (2 :: 32 word)
         then [2, 5, 6] ! j OR [2, 3, 3 :: bitset_t] ! j else [2, 5, 6] ! j)"
    by blast
  have "r' ! 2 = 5" using x(2) [rule_format, of 2] by simp
  moreover have "a' ! 2 = 7" using o(2) [rule_format, of 2] by simp
  ultimately show ?thesis using a b r s x(1) o(1) by blast
qed

section \<open>Capacity arithmetic\<close>

text \<open>
  \<open>REQ_SZ\<close> never wraps: its shifted operand is below \<open>2^58\<close>.
\<close>

lemma unat_drop6: "unat (drop_bit 6 x) = unat x div 64" for x :: size_t
  by (simp add: unat_drop_bit_eq drop_bit_eq_div [where 'a = nat])

lemma unat_lt_2p64: "unat x < 18446744073709551616" for x :: size_t
  using unsigned_less [of x, where 'a = nat] by simp

lemma unat_REQ_SZ: "unat (REQ_SZ e) = 2 + unat (e - 1) div 64"
proof -
  have "unat (e - 1) div 64 < 288230376151711744"
    using unat_lt_2p64 [of "e - 1"] by simp
  then have "unat (2 :: size_t) + unat (drop_bit 6 (e - 1)) < 2 ^ LENGTH(64)"
    by (simp add: unat_drop6)
  then have "unat (2 + drop_bit 6 (e - 1)) = unat (2 :: size_t) + unat (drop_bit 6 (e - 1))"
    by (simp only: unat_add_lem [THEN iffD1])
  then show ?thesis
    by (simp add: REQ_SZ_def unat_drop6)
qed

lemma REQ_SZ_minus_1: "REQ_SZ e - 1 = 1 + drop_bit 6 (e - 1)"
  by (simp add: REQ_SZ_def)

lemma unat_REQ_SZ_minus_1: "unat (REQ_SZ e - 1) = 1 + unat (e - 1) div 64"
proof -
  have "unat (e - 1) div 64 < 288230376151711744"
    using unat_lt_2p64 [of "e - 1"] by simp
  then have "unat (1 :: size_t) + unat (drop_bit 6 (e - 1)) < 2 ^ LENGTH(64)"
    by (simp add: unat_drop6)
  then have "unat (1 + drop_bit 6 (e - 1)) = unat (1 :: size_t) + unat (drop_bit 6 (e - 1))"
    by (simp only: unat_add_lem [THEN iffD1])
  then show ?thesis
    by (simp add: REQ_SZ_minus_1 unat_drop6)
qed

text \<open>
  The shift amount of \<open>bitset_universe\<close>, \<open>64 * w - elements\<close> in \<open>size_t\<close>
  arithmetic, is always below 64.
\<close>

lemma universe_shift:
  "64 * (REQ_SZ e - 1) - e = of_nat (63 - unat (e - 1) mod 64)"
proof -
  define q r where "q = unat (e - 1) div 64" and "r = unat (e - 1) mod 64"
  have "e - 1 = of_nat (unat (e - 1))"
    by simp
  also have "unat (e - 1) = 64 * q + r"
    by (simp add: q_def r_def)
  finally have "e - 1 = 64 * of_nat q + of_nat r"
    by simp
  then have e: "e = 64 * of_nat q + of_nat r + 1"
    by (simp add: diff_eq_eq)
  have "REQ_SZ e - 1 = of_nat (unat (REQ_SZ e - 1))"
    by simp
  also have "\<dots> = of_nat (1 + q)"
    by (simp only: unat_REQ_SZ_minus_1 q_def)
  finally have w: "REQ_SZ e - 1 = 1 + of_nat q"
    by simp
  have r: "r \<le> 63"
    by (simp add: r_def Suc_leI less_Suc_eq_le)
  have "64 * (REQ_SZ e - 1) - e = 64 * (1 + of_nat q) - (64 * of_nat q + of_nat r + 1)"
    by (simp only: w) (subst e, rule refl)
  also have "\<dots> = 63 - of_nat r"
    by (simp add: algebra_simps)
  also have "\<dots> = of_nat (63 - r)"
    using r by (simp add: of_nat_diff)
  finally show ?thesis
    by (simp only: r_def)
qed

lemma unat_universe_shift:
  "unat (64 * (REQ_SZ e - 1) - e) = 63 - unat (e - 1) mod 64"
  by (simp only: universe_shift unat_of_nat) simp

lemma unat_ucast_32: "unat (ucast x :: 32 word) = unat x mod 4294967296" for x :: size_t
proof -
  have "(ucast x :: 32 word) = of_nat (unat x)"
    by simp
  then show ?thesis
    by (simp only: unat_of_nat) simp
qed

section \<open>Allocation\<close>

lemma put_size_zero: "put_size 0 v = ucast v"
  by (simp add: put_size_def)

lemma field_size_ucast: "field_size (ucast v) = v" for v :: "32 word"
  unfolding field_size_def
  by (rule bit_word_eqI) (auto simp: bit_simps)

lemma field_flags_ucast: "field_flags (ucast v) = 0" for v :: "32 word"
  using field_flags_put_size [of 0 v] by (simp add: put_size_zero field_zero)

lemma field_tag_ucast: "field_tag (ucast v) = 0" for v :: "32 word"
  using field_tag_put_size [of 0 v] by (simp add: put_size_zero field_zero)

lemma bitset_set_size_zero_header:
  assumes "0 < length s" and "s ! 0 = 0"
  shows "bitset_set_size s val = Some (s[0 := ucast (ucast val :: 32 word)])"
  using assms by (simp add: bitset_set_size_def load_Some store_Some put_size_zero)

lemma header_fields:
  assumes "0 < length s" and "s ! 0 = ucast v"
  shows "bitset_get_size s = Some v" and "bitset_get_flags s = Some 0"
    and "bitset_get_tag s = Some 0"
  using assms
  by (simp_all add: bitset_get_size_def bitset_get_flags_def bitset_get_tag_def load_Some
      field_size_ucast field_flags_ucast field_tag_ucast)

lemma bitset_new_storage:
  "bitset_new True e =
     Some ((replicate (unat (REQ_SZ e)) 0)[0 := ucast (ucast (REQ_SZ e - 1) :: 32 word)])"
proof -
  have "0 < length (replicate (unat (REQ_SZ e)) (0 :: bitset_t))"
    by (simp add: unat_REQ_SZ)
  then have "bitset_set_size (replicate (unat (REQ_SZ e)) 0) (REQ_SZ e - 1) =
      Some ((replicate (unat (REQ_SZ e)) 0)[0 := ucast (ucast (REQ_SZ e - 1) :: 32 word)])"
    by (rule bitset_set_size_zero_header) (simp add: unat_REQ_SZ)
  then show ?thesis
    by (simp add: bitset_new_def xcalloc_def Let_def)
qed

text \<open>
  C4 as the claim has it fails on large counts: the size field is 32 bits wide, so
  for \<open>elements = 2^38 + 1\<close> the allocation has \<open>2^32 + 2\<close> lanes while the header
  reads size 1, not \<open>ceil(elements/64) = 2^32 + 1\<close>.
\<close>

theorem bitset_new_truncates_counterexample:
  "map_option length (bitset_new True 274877906945) = Some 4294967298 \<and>
   Option.bind (bitset_new True 274877906945) bitset_get_size = Some 1 \<and>
   (274877906945 + 63) div 64 = (4294967297 :: nat)"
proof -
  have r: "REQ_SZ 274877906945 = 4294967298"
    by (simp add: REQ_SZ_def drop_bit_eq_div)
  have u: "unat (4294967298 :: size_t) = 4294967298"
    by simp
  have c: "(ucast (4294967297 :: size_t) :: 32 word) = 1"
    by simp
  let ?s = "(replicate 4294967298 (0 :: bitset_t))[0 := ucast (1 :: 32 word)]"
  have n: "bitset_new True 274877906945 = Some ?s"
    using bitset_new_storage [of 274877906945] by (simp only: r u) (simp add: c)
  have "0 < length ?s"
    by simp
  moreover have "?s ! 0 = ucast (1 :: 32 word)"
    by simp
  ultimately have "bitset_get_size ?s = Some 1"
    by (rule header_fields)
  with n show ?thesis
    by simp
qed

text \<open>
  C4 (amended). For every element count with \<open>1 \<le> elements \<le> 64 * (2^32 - 1)\<close>,
  \<open>bitset_new(elements)\<close> (the allocation succeeding) returns storage of
  \<open>ceil(elements/64) + 1\<close> lanes, zero but for the header's size field, which reads
  \<open>ceil(elements/64)\<close>; when the allocation fails the call aborts.
\<close>

theorem bitset_new_capacity:
  assumes lo: "1 \<le> unat elements" and hi: "unat elements \<le> 64 * 4294967295"
  shows "\<exists>s. bitset_new True elements = Some s \<and>
           length s = (unat elements + 63) div 64 + 1 \<and>
           (\<exists>n. bitset_get_size s = Some n \<and> unat n = (unat elements + 63) div 64) \<and>
           bitset_get_flags s = Some 0 \<and> bitset_get_tag s = Some 0 \<and>
           (\<forall>i. 0 < i \<and> i < length s \<longrightarrow> s ! i = 0) \<and>
           bitset_new False elements = None"
proof -
  let ?k = "(unat elements + 63) div 64"
  let ?w = "REQ_SZ elements"
  let ?s = "(replicate (unat ?w) (0 :: bitset_t))[0 := ucast (ucast (?w - 1) :: 32 word)]"
  have "elements \<noteq> 0"
    using lo by auto
  then have e1: "unat (elements - 1) = unat elements - 1"
    by (rule unat_minus_one)
  have "unat elements + 63 = (unat elements - 1) + 64"
    using lo by simp
  then have "?k = (unat elements - 1 + 64) div 64"
    by (rule arg_cong)
  then have k: "1 + unat (elements - 1) div 64 = ?k"
    by (simp add: e1)
  have w: "unat ?w = ?k + 1"
    using k by (simp add: unat_REQ_SZ)
  have w1: "unat (?w - 1) = ?k"
    using k by (simp add: unat_REQ_SZ_minus_1)
  have kb: "?k < 4294967296"
    using hi by simp
  have "unat (ucast (?w - 1) :: 32 word) = unat (?w - 1) mod 4294967296"
    by (rule unat_ucast_32)
  then have sz: "unat (ucast (?w - 1) :: 32 word) = ?k"
    using kb by (simp only: w1) simp
  have pos: "0 < length ?s"
    by (simp add: w)
  have hd: "?s ! 0 = ucast (ucast (?w - 1) :: 32 word)"
    by (simp add: w)
  note f = header_fields [OF pos hd]
  have z: "\<forall>i. 0 < i \<and> i < length ?s \<longrightarrow> ?s ! i = 0"
    by simp
  have len: "length ?s = ?k + 1"
    by (simp add: w)
  have ab: "bitset_new False elements = None"
    by (simp add: bitset_new_def xcalloc_def Let_def)
  from bitset_new_storage [of elements] len f sz z ab show ?thesis
    by blast
qed

theorem bitset_new_capacity_witness:
  "1 \<le> unat (128 :: size_t) \<and> unat (128 :: size_t) \<le> 64 * 4294967295 \<and>
   bitset_new True 128 = Some [2, 0, 0] \<and>
   (\<exists>s. bitset_new True 128 = Some s \<and> length s = (unat (128 :: size_t) + 63) div 64 + 1)"
proof -
  have lo: "1 \<le> unat (128 :: size_t)" and hi: "unat (128 :: size_t) \<le> 64 * 4294967295"
    by simp_all
  have v: "bitset_new True 128 = Some [2, 0, 0]"
    by code_simp
  from bitset_new_capacity [OF lo hi]
  have "\<exists>s. bitset_new True 128 = Some s \<and> length s = (unat (128 :: size_t) + 63) div 64 + 1"
    by blast
  with lo hi v show ?thesis by blast
qed

text \<open>
  For \<open>elements = 0\<close> the macro's \<open>elems - 1\<close> wraps and \<open>2^58 + 1\<close> lanes are
  requested.
\<close>

lemma bitset_new_zero_elements:
  "map_option length (bitset_new True 0) = Some 288230376151711745"
proof -
  have "unat (- 1 :: size_t) = 18446744073709551615"
    by (simp add: unsigned_minus_1_eq_mask mask_eq_exp_minus_1)
  then have "unat (REQ_SZ 0) = 288230376151711745"
    by (simp add: unat_REQ_SZ)
  then show ?thesis
    by (simp add: bitset_new_storage)
qed

section \<open>Reset, null and universe\<close>

text \<open>
  The filling loop of \<open>bitset_universe\<close> sets the lanes \<open>i..w\<close> to all ones.
\<close>

lemma universe_loop_lanes:
  assumes "w < length s"
  shows "\<exists>s'. universe_loop i w s = Some s' \<and> length s' = length s \<and>
           (\<forall>j. s' ! j = (if i \<le> j \<and> j \<le> w then - 1 else s ! j))"
  using assms
proof (induction i w s rule: universe_loop.induct)
  case (1 i w s)
  show ?case
  proof (cases "i \<le> w")
    case True
    have il: "i < length s"
      using True "1.prems" by simp
    have st: "store s i (- 1) = Some (s[i := - 1])"
      using il by (rule store_Some)
    have "w < length (s[i := - 1])"
      using "1.prems" by simp
    from "1.IH" [OF True st this]
    obtain s' where s': "universe_loop (Suc i) w (s[i := - 1]) = Some s'"
      "length s' = length s"
      "\<And>j. s' ! j = (if Suc i \<le> j \<and> j \<le> w then - 1 else s[i := - 1] ! j)"
      by auto
    have unf: "universe_loop i w s = universe_loop (Suc i) w (s[i := - 1])"
      by (subst universe_loop.simps) (simp add: True st)
    have "s' ! j = (if i \<le> j \<and> j \<le> w then - 1 else s ! j)" for j
    proof (cases "j = i")
      case True
      then show ?thesis using s'(3) [of j] il \<open>i \<le> w\<close> by simp
    next
      case False
      then show ?thesis using s'(3) [of j] by auto
    qed
    with unf s'(1,2) show ?thesis by simp
  next
    case False
    have "universe_loop i w s = Some s"
      by (subst universe_loop.simps) (simp add: False)
    with False show ?thesis by auto
  qed
qed

text \<open>
  \<open>bitset_universe\<close> returns whenever the storage holds the lanes it names, for every
  element count: lane 0 holds the size field alone, the lanes below the last are all
  ones, the last is all ones shifted right, lanes beyond are kept.
\<close>

lemma bitset_universe_lanes:
  assumes room: "unat (REQ_SZ e - 1) < length s"
  shows "\<exists>u. bitset_universe s e = Some u \<and> length u = length s \<and>
           u ! 0 = ucast (ucast (REQ_SZ e - 1) :: 32 word) \<and>
           (\<forall>j. 0 < j \<and> j < unat (REQ_SZ e - 1) \<longrightarrow> u ! j = - 1) \<and>
           u ! unat (REQ_SZ e - 1) = drop_bit (63 - unat (e - 1) mod 64) (- 1) \<and>
           (\<forall>j. unat (REQ_SZ e - 1) < j \<longrightarrow> u ! j = s ! j)"
proof -
  let ?w = "unat (REQ_SZ e - 1)"
  let ?sh = "63 - unat (e - 1) mod 64"
  let ?s0 = "s[0 := 0]"
  have wpos: "0 < ?w"
    by (simp add: unat_REQ_SZ_minus_1)
  have pos: "0 < length s"
    using room by (cases s) simp_all
  have st0: "store s 0 0 = Some ?s0"
    using pos by (rule store_Some)
  have "?w < length ?s0"
    using room by simp
  from universe_loop_lanes [OF this, of 1]
  obtain s1 where s1: "universe_loop 1 ?w ?s0 = Some s1" "length s1 = length s"
    "\<And>j. s1 ! j = (if 1 \<le> j \<and> j \<le> ?w then - 1 else ?s0 ! j)"
    by auto
  have ld: "load s1 ?w = Some (- 1)"
    using s1(2) s1(3) [of ?w] room wpos by (simp add: load_Some)
  have sh: "unat (64 * (REQ_SZ e - 1) - e) = ?sh"
    by (rule unat_universe_shift)
  let ?s2 = "s1[?w := drop_bit ?sh (- 1)]"
  have st2: "store s1 ?w (drop_bit ?sh (- 1)) = Some ?s2"
    using s1(2) room by (simp add: store_Some)
  have h2: "?s2 ! 0 = 0"
    using s1(3) [of 0] wpos pos by simp
  have "0 < length ?s2"
    using s1(2) pos by simp
  from bitset_set_size_zero_header [OF this h2]
  have st3: "bitset_set_size ?s2 (REQ_SZ e - 1) = Some (?s2[0 := ucast (ucast (REQ_SZ e - 1) :: 32 word)])" .
  let ?u = "?s2[0 := ucast (ucast (REQ_SZ e - 1) :: 32 word)]"
  have shlt: "(?sh < 64) = True"
    by simp
  have run: "bitset_universe s e = Some ?u"
    by (simp only: bitset_universe_def st0 bind.bind_lunit Let_def s1(1) ld shlt if_True sh
        st2 st3)
  have l: "length ?u = length s"
    using s1(2) by simp
  have u0: "?u ! 0 = ucast (ucast (REQ_SZ e - 1) :: 32 word)"
    using s1(2) pos by simp
  have mid: "\<forall>j. 0 < j \<and> j < ?w \<longrightarrow> ?u ! j = - 1"
    using s1(3) by simp
  have last: "?u ! ?w = drop_bit ?sh (- 1)"
    using wpos s1(2) room by simp
  have rest: "\<forall>j. ?w < j \<longrightarrow> ?u ! j = s ! j"
    using s1(3) wpos by simp
  from run l u0 mid last rest show ?thesis
    by blast
qed

lemma bitset_reset_header:
  assumes s: "valid_bitset s n"
  shows "\<exists>s'. bitset_reset s = Some s' \<and> length s' = length s \<and> s' ! 0 = ucast n"
proof -
  let ?z = "replicate (unat n + 1) 0 @ drop (unat n + 1) s"
  have m: "memset_zero s (unat n + 1) = Some ?z"
    using valid_bitsetD(2) [OF s] by (simp add: memset_zero_def)
  have "0 < length ?z" and "?z ! 0 = 0"
    by simp_all
  from bitset_set_size_zero_header [OF this]
  have "bitset_set_size ?z (ucast n) = Some (?z[0 := ucast (ucast (ucast n :: size_t) :: 32 word)])" .
  moreover have "(ucast (ucast n :: size_t) :: 32 word) = n"
    by (rule bit_word_eqI) (auto simp: bit_simps)
  ultimately have st: "bitset_set_size ?z (ucast n) = Some (?z[0 := ucast n])"
    by (simp only:)
  have "bitset_reset s = Some (?z[0 := ucast n])"
    by (simp only: bitset_reset_def valid_bitsetD(1) [OF s] bind.bind_lunit m st)
  moreover have "length (?z[0 := ucast n]) = length s"
    using valid_bitsetD(2) [OF s] by simp
  moreover have "(?z[0 := ucast n]) ! 0 = ucast n"
    by simp
  ultimately show ?thesis by blast
qed

lemma bitset_null_header:
  assumes room: "unat (REQ_SZ e) \<le> length s"
  shows "\<exists>s'. bitset_null s e = Some s' \<and> length s' = length s \<and>
           s' ! 0 = ucast (ucast (REQ_SZ e - 1) :: 32 word)"
proof -
  let ?w = "unat (REQ_SZ e)"
  let ?z = "replicate ?w 0 @ drop ?w s"
  have wpos: "0 < ?w"
    by (simp add: unat_REQ_SZ)
  have m: "memset_zero s ?w = Some ?z"
    using room by (simp add: memset_zero_def)
  have "0 < length ?z"
    using wpos by simp
  moreover have "?z ! 0 = 0"
    using wpos by (simp add: nth_append)
  ultimately have "bitset_set_size ?z (REQ_SZ e - 1)
      = Some (?z[0 := ucast (ucast (REQ_SZ e - 1) :: 32 word)])"
    by (rule bitset_set_size_zero_header)
  then have "bitset_null s e = Some (?z[0 := ucast (ucast (REQ_SZ e - 1) :: 32 word)])"
    by (simp add: bitset_null_def Let_def m)
  moreover have "length (?z[0 := ucast (ucast (REQ_SZ e - 1) :: 32 word)]) = length s"
    using room by simp
  moreover have "(?z[0 := ucast (ucast (REQ_SZ e - 1) :: 32 word)]) ! 0
      = ucast (ucast (REQ_SZ e - 1) :: 32 word)"
    using wpos by simp
  ultimately show ?thesis by blast
qed

text \<open>
  C10. \<open>bitset_reset\<close>, \<open>bitset_null\<close> and \<open>bitset_universe\<close> zero the header's flags
  and tag fields, whatever their previous values: each clears lane 0 entirely and
  then stores only the size field (the declared size for \<open>reset\<close>, the truncated lane
  count \<open>REQ_SZ(elements) - 1\<close> for the other two).
\<close>

theorem header_cleared:
  assumes r: "valid_bitset s n" and nl: "unat (REQ_SZ e1) \<le> length t"
    and un: "unat (REQ_SZ e2 - 1) < length u"
  shows "(\<exists>s'. bitset_reset s = Some s' \<and> bitset_get_flags s' = Some 0 \<and>
            bitset_get_tag s' = Some 0 \<and> bitset_get_size s' = Some n) \<and>
         (\<exists>t'. bitset_null t e1 = Some t' \<and> bitset_get_flags t' = Some 0 \<and>
            bitset_get_tag t' = Some 0 \<and> bitset_get_size t' = Some (ucast (REQ_SZ e1 - 1))) \<and>
         (\<exists>u'. bitset_universe u e2 = Some u' \<and> bitset_get_flags u' = Some 0 \<and>
            bitset_get_tag u' = Some 0 \<and> bitset_get_size u' = Some (ucast (REQ_SZ e2 - 1)))"
proof -
  from bitset_reset_header [OF r]
  obtain s' where s': "bitset_reset s = Some s'" "length s' = length s" "s' ! 0 = ucast n"
    by blast
  have "0 < length s'"
    using s'(2) valid_bitsetD(3) [OF r] by simp
  note a = header_fields [OF this s'(3)]
  from bitset_null_header [OF nl]
  obtain t' where t': "bitset_null t e1 = Some t'" "length t' = length t"
    "t' ! 0 = ucast (ucast (REQ_SZ e1 - 1) :: 32 word)"
    by blast
  have "0 < unat (REQ_SZ e1)"
    by (simp add: unat_REQ_SZ)
  then have "0 < length t'"
    using t'(2) nl by (cases t) simp_all
  note b = header_fields [OF this t'(3)]
  from bitset_universe_lanes [OF un]
  obtain u' where u': "bitset_universe u e2 = Some u'" "length u' = length u"
    "u' ! 0 = ucast (ucast (REQ_SZ e2 - 1) :: 32 word)"
    by blast
  have "0 < length u'"
    using u'(2) un by (cases u) simp_all
  note c = header_fields [OF this u'(3)]
  from s'(1) a t'(1) b u'(1) c show ?thesis
    by blast
qed

theorem header_cleared_witness:
  "valid_bitset [18446744069414584321, 5] 1 \<and>
   unat (REQ_SZ 64) \<le> length [18446744069414584321, 5 :: bitset_t] \<and>
   unat (REQ_SZ 64 - 1) < length [18446744069414584321, 5 :: bitset_t] \<and>
   bitset_get_flags [18446744069414584321, 5] = Some 65535 \<and>
   bitset_get_tag [18446744069414584321, 5] = Some 65535 \<and>
   bitset_reset [18446744069414584321, 5] = Some [1, 0] \<and>
   bitset_null [18446744069414584321, 5] 64 = Some [1, 0] \<and>
   bitset_universe [18446744069414584321, 5] 64 = Some [1, - 1] \<and>
   (\<exists>s'. bitset_reset [18446744069414584321, 5] = Some s' \<and> bitset_get_flags s' = Some 0 \<and>
      bitset_get_tag s' = Some 0)"
proof -
  have r: "valid_bitset [18446744069414584321, 5] 1"
    by (simp add: valid_bitset_def bitset_get_size_def load_def field_size_def)
  have nl: "unat (REQ_SZ 64) \<le> length [18446744069414584321, 5 :: bitset_t]"
    and un: "unat (REQ_SZ 64 - 1) < length [18446744069414584321, 5 :: bitset_t]"
    by (simp_all add: unat_REQ_SZ unat_REQ_SZ_minus_1)
  have v: "bitset_get_flags [18446744069414584321, 5] = Some 65535"
    "bitset_get_tag [18446744069414584321, 5] = Some 65535"
    "bitset_reset [18446744069414584321, 5] = Some [1, 0]"
    "bitset_null [18446744069414584321, 5] 64 = Some [1, 0]"
    "bitset_universe [18446744069414584321, 5] 64 = Some [1, - 1]"
    by code_simp+
  from header_cleared [OF r nl un]
  have "\<exists>s'. bitset_reset [18446744069414584321, 5] = Some s' \<and> bitset_get_flags s' = Some 0 \<and>
      bitset_get_tag s' = Some 0"
    by blast
  with r nl un v show ?thesis by blast
qed

section \<open>Cardinality\<close>

text \<open>
  All ones shifted right by \<open>sh\<close> has \<open>64 - sh\<close> one bits.
\<close>

lemma popcountll_ones_shifted:
  assumes "sh \<le> 64"
  shows "popcountll (drop_bit sh (- 1)) = 64 - sh"
proof -
  have "{i. i < length [0..<64] \<and> bit (drop_bit sh (- 1 :: bitset_t)) ([0..<64] ! i)}
      = {..<64 - sh}"
    by (auto simp: bit_simps)
  then show ?thesis
    by (simp add: popcountll_def length_filter_conv_card)
qed

lemma popcountll_ones: "popcountll (- 1) = 64"
  using popcountll_ones_shifted [of 0] by simp

text \<open>
  The summing loop of \<open>bitset_ord\<close> and \<open>bitset_tag_ord\<close> adds the population counts
  of the lanes \<open>1..n\<close> in \<open>size_t\<close> arithmetic.
\<close>

lemma ord_loop:
  assumes "n < length s"
  shows "for_down n (\<lambda>i sum. do { x \<leftarrow> load s i; Some (sum + of_nat (popcountll x)) }) acc
      = Some (acc + of_nat (\<Sum>i = 1..n. popcountll (s ! i)))"
  using assms
proof (induction n arbitrary: acc)
  case 0
  then show ?case by simp
next
  case (Suc n)
  then show ?case
    by (simp add: load_Some add.assoc add.commute)
qed

lemma bitset_ord_sum:
  assumes "valid_bitset s n"
  shows "bitset_ord s = Some (of_nat (\<Sum>i = 1..unat n. popcountll (s ! i)))"
  using ord_loop [OF valid_bitsetD(2) [OF assms], of 0]
  by (simp add: bitset_ord_def valid_bitsetD(1) [OF assms])

text \<open>
  \<open>bitset_get\<close> reads bit \<open>i mod 64\<close> of lane \<open>1 + i div 64\<close>.
\<close>

lemma unat_ELEM_WORD: "unat (ELEM_WORD i) = 1 + unat i div 64"
proof -
  have "unat i div 64 < 288230376151711744"
    using unat_lt_2p64 [of i] by simp
  then have "unat (1 :: size_t) + unat (drop_bit 6 i) < 2 ^ LENGTH(64)"
    by (simp add: unat_drop6)
  then have "unat (1 + drop_bit 6 i) = unat (1 :: size_t) + unat (drop_bit 6 i)"
    by (simp only: unat_add_lem [THEN iffD1])
  then show ?thesis
    by (simp add: ELEM_WORD_def unat_drop6)
qed

lemma unat_ELEM_BIT: "unat (ELEM_BIT i) = unat i mod 64"
proof -
  have "(63 :: size_t) = mask 6"
    by (simp add: mask_eq_exp_minus_1)
  then have "ELEM_BIT i = take_bit 6 i"
    by (simp add: ELEM_BIT_def take_bit_eq_mask)
  then have "unat (ELEM_BIT i) = take_bit 6 (unat i)"
    by (simp only: unsigned_take_bit_eq)
  then show ?thesis
    by (simp add: take_bit_eq_mod)
qed

lemma bitset_get_bit:
  assumes "1 + unat i div 64 < length s"
  shows "bitset_get s i = Some (bit (s ! (1 + unat i div 64)) (unat i mod 64))"
proof -
  have "bitset_get s i = Some (s ! (1 + unat i div 64) AND push_bit (unat i mod 64) 1 \<noteq> 0)"
    using assms
    by (simp only: bitset_get_def Let_def unat_ELEM_WORD unat_ELEM_BIT load_Some bind.bind_lunit)
  then show ?thesis
    by (simp only: bit_iff_and_push_bit_not_eq_0 [symmetric])
qed

lemma valid_count_lanes:
  assumes lo: "1 \<le> unat e"
  shows "unat (e - 1) = unat e - 1"
    and "unat (REQ_SZ e - 1) = 1 + (unat e - 1) div 64"
proof -
  have "e \<noteq> 0"
    using lo by auto
  then show a: "unat (e - 1) = unat e - 1"
    by (rule unat_minus_one)
  show "unat (REQ_SZ e - 1) = 1 + (unat e - 1) div 64"
    by (simp only: unat_REQ_SZ_minus_1 a)
qed

text \<open>
  C3. For every valid element count \<open>n\<close> (\<open>1 \<le> n\<close>, and \<open>ceil(n/64)\<close> fits the 32-bit
  size field) and storage holding the \<open>ceil(n/64)\<close> payload lanes,
  \<open>bitset_universe(set, n)\<close> returns, \<open>bitset_ord\<close> of the result is \<open>n\<close>, and a bit
  of a payload lane is set exactly when its element index is below \<open>n\<close>, so no bit
  at index \<open>n\<close> or beyond is set (read directly or through \<open>bitset_get\<close>); the last
  payload lane is all ones shifted right by the \<open>64 * lastLaneIndex - n\<close> pad bits.
\<close>

theorem bitset_universe_ord:
  assumes lo: "1 \<le> unat elements" and hi: "unat elements \<le> 64 * 4294967295"
    and room: "(unat elements + 63) div 64 < length s"
  shows "\<exists>u. bitset_universe s elements = Some u \<and> bitset_ord u = Some elements \<and>
           (\<exists>n. bitset_get_size u = Some n \<and> unat n = (unat elements + 63) div 64) \<and>
           (\<forall>j p. 0 < j \<and> j \<le> (unat elements + 63) div 64 \<longrightarrow>
              bit (u ! j) p = (p < 64 \<and> 64 * (j - 1) + p < unat elements)) \<and>
           (\<forall>i. unat i < 64 * ((unat elements + 63) div 64) \<longrightarrow>
              bitset_get u i = Some (unat i < unat elements)) \<and>
           u ! ((unat elements + 63) div 64)
             = drop_bit (64 * ((unat elements + 63) div 64) - unat elements) (- 1) \<and>
           64 * ((unat elements + 63) div 64) - unat elements < 64"
proof -
  define m r where "m = (unat elements - 1) div 64" and "r = (unat elements - 1) mod 64"
  have "unat elements - 1 = 64 * m + r"
    by (simp add: m_def r_def)
  then have ue: "unat elements = 64 * m + r + 1"
    using lo by simp
  have rlt: "r < 64"
    by (simp add: r_def)
  have "unat elements + 63 = r + (m + 1) * 64"
    by (simp add: ue)
  then have "(unat elements + 63) div 64 = (r + (m + 1) * 64) div 64"
    by (rule arg_cong)
  also have "\<dots> = m + 1"
    using rlt by simp
  finally have K: "(unat elements + 63) div 64 = m + 1" .
  have w: "unat (REQ_SZ elements - 1) = m + 1"
    by (simp add: valid_count_lanes(2) [OF lo] m_def)
  have sh: "63 - unat (elements - 1) mod 64 = 63 - r"
    by (simp only: valid_count_lanes(1) [OF lo] r_def)
  have "unat (REQ_SZ elements - 1) < length s"
    using room by (simp only: w K)
  from bitset_universe_lanes [OF this]
  obtain u where u: "bitset_universe s elements = Some u" "length u = length s"
    "u ! 0 = ucast (ucast (REQ_SZ elements - 1) :: 32 word)"
    "\<And>j. 0 < j \<Longrightarrow> j < m + 1 \<Longrightarrow> u ! j = - 1"
    "u ! (m + 1) = drop_bit (63 - r) (- 1)"
    by (auto simp only: w sh)
  \<comment> \<open>the size field\<close>
  have mb: "m + 1 < 4294967296"
    using hi ue by simp
  have "unat (ucast (REQ_SZ elements - 1) :: 32 word) = unat (REQ_SZ elements - 1) mod 4294967296"
    by (rule unat_ucast_32)
  then have sz: "unat (ucast (REQ_SZ elements - 1) :: 32 word) = m + 1"
    using mb by (simp only: w) simp
  have pos: "0 < length u"
    using u(2) room by (cases s) simp_all
  note hf = header_fields(1) [OF pos u(3)]
  have v: "valid_bitset u (ucast (REQ_SZ elements - 1))"
    using hf sz u(2) room K by (simp add: valid_bitset_def)
  \<comment> \<open>the bits of the payload\<close>
  have bits: "bit (u ! j) p = (p < 64 \<and> 64 * (j - 1) + p < unat elements)"
    if j: "0 < j" "j \<le> m + 1" for j p
  proof (cases "j = m + 1")
    case True
    have "bit (u ! j) p = (63 - r + p < 64)"
      unfolding True u(5) using rlt by (auto simp: bit_simps)
    also have "\<dots> = (p < 64 \<and> 64 * (j - 1) + p < unat elements)"
      using rlt by (auto simp: True ue)
    finally show ?thesis .
  next
    case False
    then have "j < m + 1"
      using j(2) by simp
    then have "u ! j = - 1" and "64 * j \<le> 64 * m"
      using u(4) [OF j(1)] by simp_all
    then show ?thesis
      using j(1) by (auto simp: ue)
  qed
  \<comment> \<open>the cardinality\<close>
  have full: "popcountll (u ! i) = 64" if "i \<in> {1..m}" for i
    using that u(4) [of i] by (simp add: popcountll_ones)
  have "(\<Sum>i = 1..m + 1. popcountll (u ! i))
      = (\<Sum>i = 1..m. popcountll (u ! i)) + popcountll (u ! (m + 1))"
    by simp
  also have "(\<Sum>i = 1..m. popcountll (u ! i)) = (\<Sum>i = 1..m. 64)"
    using full by (rule sum.cong [OF refl])
  also have "\<dots> = 64 * m"
    by simp
  also have "popcountll (u ! (m + 1)) = 64 - (63 - r)"
    by (simp only: u(5)) (rule popcountll_ones_shifted, simp)
  finally have total: "(\<Sum>i = 1..m + 1. popcountll (u ! i)) = unat elements"
    using rlt by (simp add: ue)
  have "bitset_ord u = Some (of_nat (\<Sum>i = 1..m + 1. popcountll (u ! i)))"
    using bitset_ord_sum [OF v] by (simp only: sz)
  then have ord: "bitset_ord u = Some elements"
    by (simp only: total) simp
  \<comment> \<open>reading single elements\<close>
  have get: "bitset_get u i = Some (unat i < unat elements)" if "unat i < 64 * (m + 1)" for i
  proof -
    have d: "unat i div 64 < m + 1"
      using that by simp
    then have "1 + unat i div 64 < length u"
      using u(2) room K by simp
    then have "bitset_get u i = Some (bit (u ! (1 + unat i div 64)) (unat i mod 64))"
      by (rule bitset_get_bit)
    also have "bit (u ! (1 + unat i div 64)) (unat i mod 64)
        = (unat i mod 64 < 64 \<and> 64 * (1 + unat i div 64 - 1) + unat i mod 64 < unat elements)"
      using d by (intro bits) simp_all
    also have "\<dots> = (unat i < unat elements)"
      by simp
    finally show ?thesis .
  qed
  have pad: "64 * (m + 1) - unat elements = 63 - r"
    using rlt by (simp add: ue)
  have last: "u ! (m + 1) = drop_bit (64 * (m + 1) - unat elements) (- 1)"
    by (simp only: pad u(5))
  have padlt: "64 * (m + 1) - unat elements < 64"
    unfolding pad by simp
  have "\<exists>n. bitset_get_size u = Some n \<and> unat n = m + 1"
    using hf sz by blast
  with u(1) ord bits get last padlt show ?thesis
    by (simp only: K; blast)
qed

theorem bitset_universe_ord_witness:
  "1 \<le> unat (70 :: size_t) \<and> unat (70 :: size_t) \<le> 64 * 4294967295 \<and>
   (unat (70 :: size_t) + 63) div 64 < length [5, 5, 5 :: bitset_t] \<and>
   bitset_universe [5, 5, 5] 70 = Some [2, - 1, 63] \<and>
   (\<exists>u. bitset_universe [5, 5, 5] 70 = Some u \<and> bitset_ord u = Some 70)"
proof -
  have lo: "1 \<le> unat (70 :: size_t)" and hi: "unat (70 :: size_t) \<le> 64 * 4294967295"
    and room: "(unat (70 :: size_t) + 63) div 64 < length [5, 5, 5 :: bitset_t]"
    by simp_all
  have v: "bitset_universe [5, 5, 5] 70 = Some [2, - 1, 63]"
    by code_simp
  from bitset_universe_ord [OF lo hi room]
  have "\<exists>u. bitset_universe [5, 5, 5] 70 = Some u \<and> bitset_ord u = Some 70"
    by blast
  with lo hi room v show ?thesis by blast
qed

section \<open>The cardinality tag\<close>

lemma bitset_tag_ord_result:
  assumes v: "valid_bitset s n"
  shows "bitset_tag_ord s = Some (s[0 := put_tag (s ! 0)
           (ucast (of_nat (\<Sum>i = 1..unat n. popcountll (s ! i)) :: size_t))])"
proof -
  let ?k = "of_nat (\<Sum>i = 1..unat n. popcountll (s ! i)) :: size_t"
  have loop: "for_down (unat n)
      (\<lambda>i sum. do { x \<leftarrow> load s i; Some (sum + of_nat (popcountll x)) }) 0 = Some ?k"
    using ord_loop [OF valid_bitsetD(2) [OF v], of 0] by simp
  have st: "bitset_set_tag s ?k = Some (s[0 := put_tag (s ! 0) (ucast ?k)])"
    using valid_bitsetD(3) [OF v] by (simp add: bitset_set_tag_def load_Some store_Some)
  show ?thesis
    by (simp only: bitset_tag_ord_def valid_bitsetD(1) [OF v] bind.bind_lunit loop st)
qed

lemma unat_ucast_16: "unat (ucast x :: 16 word) = unat x mod 65536" for x :: size_t
proof -
  have "(ucast x :: 16 word) = of_nat (unat x)"
    by simp
  then show ?thesis
    by (simp only: unat_of_nat) simp
qed

text \<open>
  C9 as the claim has it fails on large sets: the tag is 16 bits wide, so for the
  bitset of 1024 full payload lanes \<open>bitset_ord\<close> is 65536 and the tag reads back 0.
\<close>

theorem bitset_tag_ord_truncates_counterexample:
  "bitset_ord (1024 # replicate 1024 (- 1)) = Some 65536 \<and>
   Option.bind (bitset_tag_ord (1024 # replicate 1024 (- 1))) bitset_get_tag = Some 0"
proof -
  let ?U = "1024 # replicate 1024 (- 1) :: bitset"
  have sz: "unat (1024 :: 32 word) = 1024"
    by simp
  have v: "valid_bitset ?U 1024"
    by (simp add: valid_bitset_def bitset_get_size_def load_def field_size_def)
  have "popcountll (?U ! i) = 64" if "i \<in> {1..1024}" for i
  proof -
    from that have "i - 1 < 1024" and "0 < i"
      by auto
    then have "?U ! i = - 1"
      by (simp only: nth_Cons_pos nth_replicate)
    then show ?thesis
      by (simp only: popcountll_ones)
  qed
  then have "(\<Sum>i = 1..1024. popcountll (?U ! i)) = (\<Sum>i = 1..1024 :: nat. 64)"
    by (rule sum.cong [OF refl])
  then have total: "(\<Sum>i = 1..1024. popcountll (?U ! i)) = 65536"
    by simp
  have ord: "bitset_ord ?U = Some 65536"
    using bitset_ord_sum [OF v] by (simp only: sz total) simp
  have "bitset_tag_ord ?U = Some (?U[0 := put_tag (?U ! 0) (ucast (65536 :: size_t))])"
    using bitset_tag_ord_result [OF v] by (simp only: sz total) simp
  then have "Option.bind (bitset_tag_ord ?U) bitset_get_tag = Some (ucast (65536 :: size_t))"
    by (simp add: bitset_get_tag_def load_def field_tag_put_tag)
  then have "Option.bind (bitset_tag_ord ?U) bitset_get_tag = Some 0"
    by simp
  with ord show ?thesis
    by (rule conjI)
qed

text \<open>
  C9 (amended). For every bitset, after \<open>bitset_tag_ord(set)\<close> the tag field read back
  via \<open>bitset_get_tag\<close> equals \<open>bitset_ord(set)\<close>, the total population count of the
  payload lanes, truncated to 16 bits (so equal to it whenever it is below 65536);
  size, flags and payload are unchanged. With capacity 64 and bits 0, 3 and 5 set,
  \<open>bitset_ord\<close> returns 3 and the tag reads back as 3.
\<close>

theorem bitset_tag_ord_tag:
  assumes v: "valid_bitset s n"
  shows "\<exists>k s' t. bitset_ord s = Some k \<and>
           k = of_nat (\<Sum>i = 1..unat n. popcountll (s ! i)) \<and>
           bitset_tag_ord s = Some s' \<and> bitset_get_tag s' = Some t \<and>
           t = ucast k \<and> unat t = unat k mod 65536 \<and>
           bitset_get_size s' = Some n \<and> bitset_get_flags s' = bitset_get_flags s \<and>
           length s' = length s \<and> drop 1 s' = drop 1 s \<and>
           bitset_ord [1, 41] = Some 3 \<and>
           Option.bind (bitset_tag_ord [1, 41]) bitset_get_tag = Some 3"
proof -
  let ?k = "of_nat (\<Sum>i = 1..unat n. popcountll (s ! i)) :: size_t"
  let ?s' = "s[0 := put_tag (s ! 0) (ucast ?k)]"
  note pos = valid_bitsetD(3) [OF v]
  have tag: "bitset_get_tag ?s' = Some (ucast ?k)"
    using pos by (simp add: bitset_get_tag_def load_def field_tag_put_tag)
  have size: "bitset_get_size ?s' = Some n"
    using pos valid_bitsetD(4) [OF v]
    by (simp add: bitset_get_size_def load_def field_size_put_tag)
  have flags: "bitset_get_flags ?s' = bitset_get_flags s"
    using pos by (simp add: bitset_get_flags_def load_def field_flags_put_tag)
  have rest: "drop 1 ?s' = drop 1 s"
    by (simp add: drop_update_cancel)
  have scen: "bitset_ord [1, 41] = Some 3"
    "Option.bind (bitset_tag_ord [1, 41]) bitset_get_tag = Some 3"
    by code_simp+
  from bitset_ord_sum [OF v] bitset_tag_ord_result [OF v] tag size flags rest scen
    unat_ucast_16 [of ?k]
  show ?thesis
    by simp
qed

theorem bitset_tag_ord_tag_witness:
  "valid_bitset [1, 41] 1 \<and>
   (\<exists>k s' t. bitset_ord [1, 41] = Some k \<and> bitset_tag_ord [1, 41] = Some s' \<and>
      bitset_get_tag s' = Some t \<and> t = ucast k) \<and>
   bitset_tag_ord [1, 41] = Some [844424930131969, 41]"
proof -
  have v: "valid_bitset [1, 41] 1"
    by (simp add: valid_bitset_def bitset_get_size_def load_def field_size_def)
  have e: "bitset_tag_ord [1, 41] = Some [844424930131969, 41]"
    by code_simp
  from bitset_tag_ord_tag [OF v]
  have "\<exists>k s' t. bitset_ord [1, 41] = Some k \<and> bitset_tag_ord [1, 41] = Some s' \<and>
      bitset_get_tag s' = Some t \<and> t = ucast k"
    by blast
  with v e show ?thesis by blast
qed

section \<open>Copy and duplicate\<close>

lemma bitset_copy_append:
  assumes s: "valid_bitset src n" and d: "unat n < length dst"
  shows "bitset_copy dst src = Some (take (unat n + 1) src @ drop (unat n + 1) dst)"
  using valid_bitsetD(2) [OF s] d
  by (simp add: bitset_copy_def valid_bitsetD(1) [OF s] memcpy_lanes_def)

text \<open>
  \<open>bitset_copy(dst, src)\<close> into a destination with room for the source's declared
  size: the header lane of the result (size, flags and tag) is that of \<open>src\<close>, the
  payload lanes \<open>1..size(src)\<close> are those of \<open>src\<close>, further lanes of \<open>dst\<close> are kept.
\<close>

lemma bitset_copy_header_payload:
  assumes s: "valid_bitset src n" and d: "unat n < length dst"
  shows "\<exists>d'. bitset_copy dst src = Some d' \<and> length d' = length dst \<and>
           d' ! 0 = src ! 0 \<and>
           bitset_get_size d' = bitset_get_size src \<and>
           bitset_get_flags d' = bitset_get_flags src \<and>
           bitset_get_tag d' = bitset_get_tag src \<and>
           (\<forall>i. 0 < i \<and> i \<le> unat n \<longrightarrow> d' ! i = src ! i) \<and>
           (\<forall>i. unat n < i \<longrightarrow> d' ! i = dst ! i)"
proof -
  let ?k = "unat n + 1"
  let ?d = "take ?k src @ drop ?k dst"
  note ls = valid_bitsetD(2) [OF s]
  have len: "length ?d = length dst"
    using ls d by simp
  have low: "?d ! i = src ! i" if "i \<le> unat n" for i
    using that ls by (simp add: nth_append)
  have lt: "length (take ?k src) = ?k"
    using ls by simp
  have high: "?d ! i = dst ! i" if "unat n < i" for i
  proof -
    have "?d ! i = drop ?k dst ! (i - ?k)"
      using that by (simp only: nth_append lt) simp
    also have "\<dots> = dst ! (?k + (i - ?k))"
      using d by simp
    also have "?k + (i - ?k) = i"
      using that by simp
    finally show ?thesis .
  qed
  have pos: "0 < length ?d" "0 < length src"
    using valid_bitsetD(3) [OF s] by simp_all
  have hd: "?d ! 0 = src ! 0"
    using low [of 0] by simp
  have fields: "bitset_get_size ?d = bitset_get_size src"
    "bitset_get_flags ?d = bitset_get_flags src" "bitset_get_tag ?d = bitset_get_tag src"
    using pos hd
    by (simp_all only: bitset_get_size_def bitset_get_flags_def bitset_get_tag_def load_Some)
  show ?thesis
    using bitset_copy_append [OF s d] len hd fields low high
    by simp
qed

text \<open>
  Below the largest size the field can hold, \<open>bitset_dupl\<close> (the allocation
  succeeding) returns the first \<open>size + 1\<close> lanes of its argument, and copying the
  argument into the duplicate gives them again.
\<close>

lemma bitset_dupl_take:
  assumes s: "valid_bitset s n" and n: "n \<noteq> - 1"
  shows "bitset_dupl junk True s = Some (take (unat n + 1) s)"
proof -
  have "1 + n \<noteq> 0"
    using n by (simp add: add_eq_0_iff)
  then have "unat (1 + n) = Suc (unat n)"
    by (rule unatSuc)
  then have "unat (n + 1) = unat n + 1"
    by (simp add: add.commute)
  then show ?thesis
    using valid_bitsetD(2) [OF s]
    by (simp add: bitset_dupl_def valid_bitsetD(1) [OF s] xmalloc_def memcpy_lanes_def Let_def)
qed

lemma bitset_copy_dupl_roundtrip:
  assumes s: "valid_bitset a n" and n: "n \<noteq> - 1"
  shows "\<exists>c. bitset_dupl junk True a = Some c \<and> bitset_copy c a = Some (take (unat n + 1) a)"
proof -
  have "unat n < length (take (unat n + 1) a)"
    using valid_bitsetD(2) [OF s] by simp
  from bitset_copy_append [OF s this]
  have "bitset_copy (take (unat n + 1) a) a = Some (take (unat n + 1) a)"
    by simp
  with bitset_dupl_take [OF s n] show ?thesis
    by simp
qed

text \<open>
  C5. The round trip \<open>copy(dupl(a), a) = a\<close> fails for the bitset of declared size
  \<open>2^32 - 1\<close> that \<open>bitset_new(64 * (2^32 - 1))\<close> returns: \<open>bitset_dupl\<close> forms
  \<open>size + 1\<close> in 32 bits, which wraps to 0, so the duplicate holds no lane, and
  \<open>bitset_copy\<close> of \<open>a\<close> into it writes outside the allocation.
\<close>

theorem bitset_dupl_size_wraps:
  "bitset_new True 274877906880 = Some (4294967295 # replicate 4294967295 0) \<and>
   bitset_dupl junk True (4294967295 # replicate 4294967295 0) = Some [] \<and>
   bitset_copy [] (4294967295 # replicate 4294967295 0) = None"
proof -
  let ?A = "4294967295 # replicate 4294967295 0 :: bitset"
  have r: "REQ_SZ 274877906880 = 4294967296"
    by (simp add: REQ_SZ_def drop_bit_eq_div)
  have u: "unat (4294967296 :: size_t) = Suc 4294967295"
    by simp
  have c: "(ucast (ucast (4294967296 - 1 :: size_t) :: 32 word) :: bitset_t) = 4294967295"
    by simp
  have new: "bitset_new True 274877906880 = Some ?A"
    using bitset_new_storage [of 274877906880]
    by (simp only: r u c replicate_Suc list_update_code)
  have sz: "bitset_get_size ?A = Some (- 1)"
    by (simp add: bitset_get_size_def load_def field_size_def)
  have len: "unat ((- 1 :: 32 word) + 1) = 0"
    by simp
  have dupl: "bitset_dupl junk True ?A = Some []"
    by (simp only: bitset_dupl_def sz bind.bind_lunit Let_def len xmalloc_def if_True)
      (simp add: memcpy_lanes_def)
  have copy: "bitset_copy [] ?A = None"
    by (simp only: bitset_copy_def sz bind.bind_lunit) (simp add: memcpy_lanes_def)
  from new dupl copy show ?thesis
    by simp
qed

section \<open>Scenario inputs\<close>

text \<open>
  How the concrete bitsets used above arise from the constructors and \<open>bitset_set\<close>:
  capacity 64 with bits 0, 3 and 5; \<open>{0,1,2}\<close> and \<open>{1,2}\<close>; the empty set of
  capacity 128; and storage of three lanes re-initialised by \<open>bitset_null\<close> to
  capacity 64, whose declared size is 1 while lane 2 keeps its old content.
\<close>

lemma scenario_inputs:
  "do { s \<leftarrow> bitset_new True 64; s \<leftarrow> bitset_set s 0; s \<leftarrow> bitset_set s 3; bitset_set s 5 }
     = Some [1, 41]"
  "do { s \<leftarrow> bitset_new True 3; s \<leftarrow> bitset_set s 0; s \<leftarrow> bitset_set s 1; bitset_set s 2 }
     = Some [1, 7]"
  "do { s \<leftarrow> bitset_new True 3; s \<leftarrow> bitset_set s 1; bitset_set s 2 } = Some [1, 6]"
  "bitset_new True 128 = Some [2, 0, 0]"
  "do { s \<leftarrow> bitset_new True 128;
        s \<leftarrow> bitset_set s 64; s \<leftarrow> bitset_set s 65; s \<leftarrow> bitset_set s 66; s \<leftarrow> bitset_set s 67;
        s \<leftarrow> bitset_null s 64;
        s \<leftarrow> bitset_set s 0; s \<leftarrow> bitset_set s 1; s \<leftarrow> bitset_set s 2; bitset_set s 3 }
     = Some [1, 15, 15]"
  by code_simp+

end
